theory Spec2Isabelle
  imports Main "HOL-Library.Sublist"
begin

section \<open>The string operations of \<open>llvm::StringRef\<close> used by the check\<close>

text \<open>
  The check in \<open>CastCheck.cpp\<close> derives its replacement text with a handful of
  \<open>llvm::StringRef\<close> methods. \<open>llvm/ADT/StringRef.h\<close> is a library header that the
  check includes; the definitions below follow its documented behaviour. A
  \<open>StringRef\<close> is a byte string, here a \<open>string\<close> (a list of \<open>char\<close>).
\<close>

text \<open>
  Modelled from the spec: \<open>StringRef::starts_with\<close> (declared in
  \<open>llvm/ADT/StringRef.h\<close>): true iff \<open>Prefix\<close> is an initial segment of the string.
\<close>

fun starts_with :: "string \<Rightarrow> string \<Rightarrow> bool" where
  "starts_with S [] = True"
| "starts_with [] (p # ps) = False"
| "starts_with (c # cs) (p # ps) = (c = p \<and> starts_with cs ps)"

text \<open>
  Modelled from the spec: \<open>StringRef::find(StringRef)\<close> (declared in
  \<open>llvm/ADT/StringRef.h\<close>): the index of the first occurrence of \<open>Str\<close>, \<open>None\<close>
  standing for \<open>npos\<close>.
\<close>

fun find_str :: "string \<Rightarrow> string \<Rightarrow> nat option" where
  "find_str [] Str = (if Str = [] then Some 0 else None)"
| "find_str (c # cs) Str =
     (if starts_with (c # cs) Str then Some 0 else map_option Suc (find_str cs Str))"

text \<open>
  Modelled from the spec: \<open>StringRef::contains(StringRef Other)\<close> is
  \<open>find(Other) != npos\<close>.
\<close>

definition contains :: "string \<Rightarrow> string \<Rightarrow> bool" where
  "contains S Other = (find_str S Other \<noteq> None)"

text \<open>
  Modelled from the spec: \<open>StringRef::rfind(StringRef)\<close> (declared in
  \<open>llvm/ADT/StringRef.h\<close>): the index of the last occurrence of \<open>Str\<close>, \<open>None\<close>
  standing for \<open>npos\<close>.
\<close>

fun rfind :: "string \<Rightarrow> string \<Rightarrow> nat option" where
  "rfind [] Str = (if Str = [] then Some 0 else None)"
| "rfind (c # cs) Str =
     (case rfind cs Str of
        Some i \<Rightarrow> Some (Suc i)
      | None \<Rightarrow> if starts_with (c # cs) Str then Some 0 else None)"

text \<open>
  Modelled from the spec: \<open>StringRef::rsplit(StringRef Separator)\<close> (declared in
  \<open>llvm/ADT/StringRef.h\<close>): split around the last occurrence of the separator
  (step 1 of the spec's algorithm, "splitting on the last occurrence"); when the
  separator does not occur the result is the whole string and the empty string.
\<close>

definition rsplit :: "string \<Rightarrow> string \<Rightarrow> string \<times> string" where
  "rsplit S Separator =
     (case rfind S Separator of
        None \<Rightarrow> (S, [])
      | Some Idx \<Rightarrow> (take Idx S, drop (Idx + length Separator) S))"

text \<open>
  Modelled from the spec: \<open>StringRef::consume_front(StringRef Prefix)\<close> (declared in
  \<open>llvm/ADT/StringRef.h\<close>): drops \<open>Prefix\<close> when the string starts with it and
  leaves the string alone otherwise. The check ignores the boolean it returns.
\<close>

definition consume_front :: "string \<Rightarrow> string \<Rightarrow> string" where
  "consume_front S Prefix = (if starts_with S Prefix then drop (length Prefix) S else S)"

text \<open>
  Modelled from the spec: \<open>StringRef::trim\<close> with its default character set
  \<open>" \\t\\n\\v\\f\\r"\<close> (declared in \<open>llvm/ADT/StringRef.h\<close>), which is
  \<open>ltrim\<close> followed by \<open>rtrim\<close> (step 2 of the spec's algorithm, "trim
  surrounding whitespace").
\<close>

definition whitespace :: "char list" where
  "whitespace = [CHR '' '', CHR 0x09, CHR 0x0A, CHR 0x0B, CHR 0x0C, CHR 0x0D]"

definition ltrim :: "string \<Rightarrow> string" where
  "ltrim S = dropWhile (\<lambda>c. c \<in> set whitespace) S"

definition rtrim :: "string \<Rightarrow> string" where
  "rtrim S = rev (dropWhile (\<lambda>c. c \<in> set whitespace) (rev S))"

definition trim :: "string \<Rightarrow> string" where
  "trim S = rtrim (ltrim S)"

section \<open>The helpers of \<open>CastCheck.cpp\<close>\<close>

definition maybePrefixed :: "string \<Rightarrow> string" where
  "maybePrefixed Func' = ''llvm::'' @ Func'"

text \<open>
  \<open>transformObj\<close> also writes a debugging line to \<open>llvm::errs()\<close> when the call
  uses an arrow; \<open>transformObj_errs\<close> is that text, \<open>transformObj\<close> the value
  returned.
\<close>

definition transformObj :: "string \<Rightarrow> string \<Rightarrow> bool \<Rightarrow> string" where
  "transformObj Obj Function IsArrow =
     (if IsArrow then
        (if trim Function = [] then Obj @ ''*this'' else ''*'' @ Obj)
      else Obj)"

definition transformObj_errs :: "string \<Rightarrow> string \<Rightarrow> bool \<Rightarrow> string" where
  "transformObj_errs Obj Function IsArrow =
     (if IsArrow then ''Func: '' @ Function @ '' and Obj: '' @ Obj else [])"

text \<open>
  \<open>transformFunction\<close> writes \<open>Transform func(...)\<close> to \<open>llvm::errs()\<close> first
  (\<open>transformFunction_errs\<close>), then normalises and renames the operation part.
\<close>

definition transformFunction_errs :: "string \<Rightarrow> string" where
  "transformFunction_errs Function = ''Transform func('' @ Function @ '')''"

definition transformFunction :: "string \<Rightarrow> bool \<Rightarrow> string" where
  "transformFunction Function IsPointerUnion =
     (let F = trim (consume_front Function ''template '') in
      if IsPointerUnion \<and> contains F ''dyn_cast'' \<and> \<not> contains F ''dyn_cast_if_present''
      then maybePrefixed (''dyn_cast_if_present'' @ consume_front F ''dyn_cast'')
      else if contains F ''dyn_cast_or_null''
      then maybePrefixed (''dyn_cast_if_present'' @ consume_front F ''dyn_cast_or_null'')
      else if trim F = [] then ''llvm::''
      else maybePrefixed F)"

definition splitCall :: "string \<Rightarrow> bool \<Rightarrow> string \<times> string" where
  "splitCall Call IsArrow =
     (if contains Call ''...'' \<and> contains Call ''isa'' then
        (case (if IsArrow then rsplit Call ''->isa'' else rsplit Call ''.isa'') of
           (Obj, Function) \<Rightarrow> (Obj, ''isa'' @ Function))
      else
        (case (if IsArrow then rsplit Call ''->'' else rsplit Call ''.'') of
           (Obj, Function) \<Rightarrow> (Obj, Function)))"

section \<open>\<open>CastCheck::check\<close>\<close>

text \<open>
  What \<open>check\<close> reads from a match: the source text of the bound call
  expression and the member expression bound as \<open>Callee\<close> (the MLIR families) or
  as \<open>PUCallee\<close> (\<open>llvm::PointerUnion\<close>). Of a member expression the check
  reads \<open>isArrow()\<close> and the member name.
\<close>

record MemberExpr =
  isArrow :: bool
  getMemberName :: string

record MatchResult =
  SourceText :: string
  Callee :: "MemberExpr option"
  PUCallee :: "MemberExpr option"

text \<open>
  Modelled from the spec: \<open>Lexer::getSourceText\<close> on
  \<open>CharSourceRange::getCharRange(Call->getSourceRange())\<close> is clang code that
  is not under the check's sources. The source range of a call expression ends at
  its closing parenthesis token and a character range stops before its end
  location, so the text handed to the check is the text of the call without its
  final \<open>)\<close>; this is why \<open>check\<close> composes \<open>Function + Obj + ")"\<close> with no
  opening parenthesis of its own, and how the spec's scenarios turn
  \<open>x.cast<Foo>()\<close> into a text of the form \<open><resolved-name>(<receiver>)\<close>.
\<close>

definition getSourceText :: "string \<Rightarrow> string" where
  "getSourceText CallText = butlast CallText"

text \<open>
  The check has two outputs: the debugging text written to \<open>llvm::errs()\<close> and
  the diagnostics with their fix-it replacements. Both are write-only.
\<close>

record Diagnostic =
  Message :: string
  Replacement :: string

record CheckState =
  errs :: string
  diagnostics :: "Diagnostic list"

datatype error = AssertionFailed

definition printFixIt :: "string \<Rightarrow> CheckState \<Rightarrow> CheckState" where
  "printFixIt ReplacementString st =
     st\<lparr>diagnostics := diagnostics st @
        [\<lparr>Message = ''Casting call is using methods instead of functions https://mlir.llvm.org/deprecation/'',
          Replacement = ReplacementString\<rparr>]\<rparr>"

text \<open>
  The part of \<open>check\<close> after the matched nodes have been read: from the source
  text \<open>Src\<close> of the call and the two flags to the replacement string \<open>dst\<close>.
\<close>

definition check_dst :: "string \<Rightarrow> bool \<Rightarrow> bool \<Rightarrow> string" where
  "check_dst Src IsArrow IsPointerUnion =
     (case splitCall Src IsArrow of
        (Obj, Function) \<Rightarrow>
          transformFunction Function IsPointerUnion
            @ transformObj Obj Function IsArrow @ '')'')"

text \<open>The text \<open>check\<close> sends to \<open>llvm::errs()\<close> through its two helpers.\<close>

definition check_errs :: "string \<Rightarrow> bool \<Rightarrow> string" where
  "check_errs Src IsArrow =
     (case splitCall Src IsArrow of
        (Obj, Function) \<Rightarrow>
          transformObj_errs Obj Function IsArrow @ transformFunction_errs Function)"

text \<open>
  \<open>check\<close> itself. A match binds the member expression as \<open>Callee\<close> or as
  \<open>PUCallee\<close>; when neither is bound the assertion of the source fails.
\<close>

definition IsPointerUnion_of :: "MatchResult \<Rightarrow> bool" where
  "IsPointerUnion_of Result = (Callee Result = None)"

definition Callee_of :: "MatchResult \<Rightarrow> MemberExpr option" where
  "Callee_of Result =
     (case Callee Result of Some C \<Rightarrow> Some C | None \<Rightarrow> PUCallee Result)"

definition check :: "MatchResult \<Rightarrow> CheckState \<Rightarrow> error + CheckState" where
  "check Result st =
     (case Callee_of Result of
        None \<Rightarrow> Inl AssertionFailed
      | Some C \<Rightarrow>
          Inr (printFixIt
                 (check_dst (SourceText Result) (isArrow C) (IsPointerUnion_of Result))
                 (st\<lparr>errs := errs st @ check_errs (SourceText Result) (isArrow C)\<rparr>)))"

section \<open>Facts about the string operations\<close>

text \<open>
  \<open>starts_with\<close>, \<open>contains\<close> and \<open>rfind\<close> agree with the list notions
  \<open>prefix\<close> and \<open>sublist\<close>; \<open>rsplit\<close> cuts at the last occurrence of the
  separator.
\<close>

lemma starts_with_prefix: "starts_with S P = prefix P S"
  by (induction S P rule: starts_with.induct) auto

lemma find_str_None: "(find_str S P = None) = (\<not> sublist P S)"
  by (induction S) (auto simp: starts_with_prefix sublist_Cons_right)

lemma contains_sublist: "contains S P = sublist P S"
  by (simp add: contains_def find_str_None)

lemma rfind_None: "(rfind S P = None) = (\<not> sublist P S)"
  by (induction S) (auto simp: starts_with_prefix sublist_Cons_right split: option.splits)

lemma rfind_last:
  assumes "P \<noteq> []" and "\<not> sublist P (tl (P @ b))"
  shows "rfind (a @ P @ b) P = Some (length a)"
proof (induction a)
  case Nil
  from assms(1) obtain c cs where pc: "P @ b = c # cs" by (cases P) auto
  with assms(2) have "rfind cs P = None" by (simp add: rfind_None)
  moreover have "starts_with (c # cs) P" using pc by (simp add: starts_with_prefix flip: pc)
  ultimately show ?case using pc by simp
next
  case (Cons x a)
  then show ?case by simp
qed

lemma rsplit_last:
  assumes "P \<noteq> []" and "\<not> sublist P (tl (P @ b))"
  shows "rsplit (a @ P @ b) P = (a, b)"
  using rfind_last [OF assms, of a] by (simp add: rsplit_def)

lemma rsplit_absent: "\<not> sublist P S \<Longrightarrow> rsplit S P = (S, [])"
  using rfind_None [of S P] by (simp add: rsplit_def)

lemma ltrim_decomp: "\<exists>ws. S = ws @ ltrim S \<and> set ws \<subseteq> set whitespace"
proof -
  have "S = takeWhile (\<lambda>c. c \<in> set whitespace) S @ ltrim S"
    by (simp add: ltrim_def)
  moreover have "set (takeWhile (\<lambda>c. c \<in> set whitespace) S) \<subseteq> set whitespace"
    by (auto dest: set_takeWhileD)
  ultimately show ?thesis by blast
qed

lemma rtrim_decomp: "\<exists>ws. S = rtrim S @ ws \<and> set ws \<subseteq> set whitespace"
proof -
  let ?p = "\<lambda>c. c \<in> set whitespace"
  have "rev S = takeWhile ?p (rev S) @ dropWhile ?p (rev S)" by simp
  then have "S = rev (dropWhile ?p (rev S)) @ rev (takeWhile ?p (rev S))"
    by (metis rev_append rev_rev_ident)
  moreover have "set (rev (takeWhile ?p (rev S))) \<subseteq> set whitespace"
    by (auto dest: set_takeWhileD)
  ultimately show ?thesis unfolding rtrim_def by blast
qed

lemma sublist_ltrim: "sublist (ltrim S) S"
  using ltrim_decomp [of S] by (metis sublist_append_leftI)

lemma sublist_rtrim: "sublist (rtrim S) S"
  using rtrim_decomp [of S] by (metis sublist_append_rightI)

lemma sublist_trim: "sublist (trim S) S"
  unfolding trim_def using sublist_rtrim sublist_ltrim sublist_order.order_trans by blast

lemma not_sublist_trim: "\<not> sublist P S \<Longrightarrow> \<not> sublist P (trim S)"
  using sublist_trim sublist_order.order_trans by blast

lemma ltrim_id: "S \<noteq> [] \<Longrightarrow> hd S \<notin> set whitespace \<Longrightarrow> ltrim S = S"
  by (cases S) (simp_all add: ltrim_def)

lemma ltrim_ws_append: "set ws \<subseteq> set whitespace \<Longrightarrow> ltrim (ws @ S) = ltrim S"
  by (induction ws) (simp_all add: ltrim_def)

lemma rtrim_append:
  assumes "a \<noteq> []" and "last a \<notin> set whitespace"
  shows "rtrim (a @ b) = a @ rtrim b"
proof -
  let ?p = "\<lambda>c. c \<in> set whitespace"
  have ra: "dropWhile ?p (rev a) = rev a"
    using assms by (cases a rule: rev_cases) simp_all
  show ?thesis
  proof (cases "\<forall>c \<in> set (rev b). ?p c")
    case True
    then have "dropWhile ?p (rev b @ rev a) = dropWhile ?p (rev a)"
      by (intro dropWhile_append2) simp
    moreover from True have "dropWhile ?p (rev b) = []" by simp
    ultimately show ?thesis by (simp add: rtrim_def ra)
  next
    case False
    then obtain c where "c \<in> set (rev b)" "\<not> ?p c" by blast
    then have "dropWhile ?p (rev b @ rev a) = dropWhile ?p (rev b) @ rev a"
      by (simp add: dropWhile_append1)
    then show ?thesis by (simp add: rtrim_def)
  qed
qed

lemma trim_name_append:
  assumes "a \<noteq> []" and "hd a \<notin> set whitespace" and "last a \<notin> set whitespace"
  shows "trim (a @ b) = a @ rtrim b"
proof -
  have "ltrim (a @ b) = a @ b" using assms(1,2) by (intro ltrim_id) simp_all
  then show ?thesis by (simp add: trim_def rtrim_append assms)
qed

lemma rtrim_Nil_iff: "(rtrim S = []) = (set S \<subseteq> set whitespace)"
  by (auto simp: rtrim_def dropWhile_eq_Nil_conv)

lemma ltrim_Nil_iff: "(ltrim S = []) = (set S \<subseteq> set whitespace)"
  by (auto simp: ltrim_def dropWhile_eq_Nil_conv)

lemma trim_Nil_iff: "(trim S = []) = (set S \<subseteq> set whitespace)"
proof
  assume "trim S = []"
  then have "set (ltrim S) \<subseteq> set whitespace" by (simp add: trim_def rtrim_Nil_iff)
  moreover obtain ws where "S = ws @ ltrim S" "set ws \<subseteq> set whitespace"
    using ltrim_decomp by blast
  ultimately show "set S \<subseteq> set whitespace" by (metis set_append Un_least)
next
  assume "set S \<subseteq> set whitespace"
  then have "ltrim S = []" by (simp add: ltrim_Nil_iff)
  then show "trim S = []" by (simp add: trim_def rtrim_def)
qed

lemma rtrim_last: "rtrim S \<noteq> [] \<Longrightarrow> last (rtrim S) \<notin> set whitespace"
proof -
  let ?d = "dropWhile (\<lambda>c. c \<in> set whitespace) (rev S)"
  assume "rtrim S \<noteq> []"
  then have ne: "?d \<noteq> []" by (simp add: rtrim_def)
  then have "hd ?d \<notin> set whitespace" by (rule hd_dropWhile)
  moreover have "last (rev ?d) = hd ?d" using ne by (simp add: last_rev)
  ultimately show ?thesis unfolding rtrim_def by simp
qed

lemma trim_trim_Nil: "(trim (trim S) = []) = (trim S = [])"
proof (cases "trim S = []")
  case True
  have "trim [] = []" by (simp add: trim_def rtrim_def ltrim_def)
  with True show ?thesis by simp
next
  case False
  then have "last (trim S) \<notin> set whitespace"
    unfolding trim_def by (rule rtrim_last)
  moreover have "last (trim S) \<in> set (trim S)" using False by simp
  ultimately have "\<not> set (trim S) \<subseteq> set whitespace" by blast
  then show ?thesis using False by (simp only: trim_Nil_iff)
qed

section \<open>Facts about the helpers\<close>

lemma consume_front_absent: "\<not> starts_with S P \<Longrightarrow> consume_front S P = S"
  by (simp add: consume_front_def)

lemma consume_front_append: "consume_front (P @ S) P = S"
  by (simp add: consume_front_def starts_with_prefix)

lemma not_contains_trim: "\<not> contains S P \<Longrightarrow> \<not> contains (trim S) P"
  by (simp add: contains_sublist not_sublist_trim)

lemma contains_append_left: "contains S P \<Longrightarrow> contains (S @ T) P"
  unfolding contains_sublist by (metis sublist_order.order_trans sublist_append_rightI)

lemma contains_longer: "contains S (P @ Q) \<Longrightarrow> contains S P"
  unfolding contains_sublist by (metis sublist_order.order_trans sublist_append_rightI)

lemma transformFunction_unrenamed:
  assumes "\<not> starts_with fn ''template ''"
    and "\<not> contains fn ''dyn_cast_or_null''"
    and "IsPointerUnion \<longrightarrow> \<not> contains fn ''dyn_cast''"
    and "trim fn \<noteq> []"
  shows "transformFunction fn IsPointerUnion = ''llvm::'' @ trim fn"
proof -
  have F: "trim (consume_front fn ''template '') = trim fn"
    using assms(1) by (simp add: consume_front_absent)
  have a: "\<not> contains (trim fn) ''dyn_cast_or_null''"
    using assms(2) by (rule not_contains_trim)
  have b: "IsPointerUnion \<longrightarrow> \<not> contains (trim fn) ''dyn_cast''"
    using assms(3) not_contains_trim by blast
  have c: "trim (trim fn) \<noteq> []" using assms(4) by (simp add: trim_trim_Nil)
  show ?thesis
    unfolding transformFunction_def F Let_def maybePrefixed_def
    using a b c by auto
qed

lemma splitCall_plain:
  assumes "\<not> (contains Call ''...'' \<and> contains Call ''isa'')"
  shows "splitCall Call IsArrow = (if IsArrow then rsplit Call ''->'' else rsplit Call ''.'')"
  using assms by (auto simp: splitCall_def)

lemma rsplit_dot:
  assumes "\<not> contains fn ''.''"
  shows "rsplit (recv @ ''.'' @ fn) ''.'' = (recv, fn)"
  using assms rsplit_last [of "''.''" fn recv] by (simp add: contains_sublist)

lemma rsplit_arrow:
  assumes "\<not> contains fn ''->''"
  shows "rsplit (recv @ ''->'' @ fn) ''->'' = (recv, fn)"
proof -
  have "\<not> sublist ''->'' (CHR ''>'' # fn)"
    using assms by (simp add: contains_sublist sublist_Cons_right)
  then show ?thesis using rsplit_last [of "''->''" fn recv] by simp
qed

lemma rsplit_dot_isa:
  assumes "\<not> contains rest ''.isa''"
  shows "rsplit (recv @ ''.isa'' @ rest) ''.isa'' = (recv, rest)"
proof -
  have "\<not> sublist ''.isa'' (''isa'' @ rest)"
    using assms by (simp add: contains_sublist sublist_Cons_right)
  then show ?thesis using rsplit_last [of "''.isa''" rest recv] by simp
qed

lemma rsplit_arrow_isa:
  assumes "\<not> contains rest ''->isa''"
  shows "rsplit (recv @ ''->isa'' @ rest) ''->isa'' = (recv, rest)"
proof -
  have "\<not> sublist ''->isa'' (''>isa'' @ rest)"
    using assms by (simp add: contains_sublist sublist_Cons_right)
  then show ?thesis using rsplit_last [of "''->isa''" rest recv] by simp
qed

lemma transformFunction_dyn_cast_or_null:
  "transformFunction (''dyn_cast_or_null'' @ rest) False
     = ''llvm::dyn_cast_if_present'' @ rtrim rest"
proof -
  have F: "trim (consume_front (''dyn_cast_or_null'' @ rest) ''template '')
            = ''dyn_cast_or_null'' @ rtrim rest"
    using trim_name_append [of "''dyn_cast_or_null''" rest]
    by (simp add: consume_front_def whitespace_def)
  have c: "contains (''dyn_cast_or_null'' @ rtrim rest) ''dyn_cast_or_null''"
    unfolding contains_sublist by (rule sublist_append_rightI)
  show ?thesis
    unfolding transformFunction_def F Let_def maybePrefixed_def
    using c consume_front_append [of "''dyn_cast_or_null''" "rtrim rest"] by simp
qed

lemma not_contains_isa_rest:
  assumes "\<not> contains rest ''dyn_cast''"
  shows "\<not> contains (''isa'' @ rtrim rest) ''dyn_cast''"
proof -
  have "\<not> sublist ''dyn_cast'' (rtrim rest)"
    using assms sublist_rtrim [of rest] sublist_order.order_trans
    unfolding contains_sublist by blast
  then show ?thesis by (simp add: contains_sublist sublist_Cons_right)
qed

lemma transformFunction_isa:
  assumes "\<not> contains rest ''dyn_cast''"
  shows "transformFunction (''isa'' @ rest) IsPointerUnion = ''llvm::isa'' @ rtrim rest"
proof -
  have F: "trim (consume_front (''isa'' @ rest) ''template '') = ''isa'' @ rtrim rest"
    using trim_name_append [of "''isa''" rest]
    by (simp add: consume_front_def whitespace_def)
  have a: "\<not> contains (''isa'' @ rtrim rest) ''dyn_cast''"
    using assms by (rule not_contains_isa_rest)
  then have b: "\<not> contains (''isa'' @ rtrim rest) ''dyn_cast_or_null''"
    using contains_longer [of "''isa'' @ rtrim rest" "''dyn_cast''" "''_or_null''"] by auto
  have "trim (''isa'' @ rtrim rest) \<noteq> []"
    using trim_trim_Nil [of "''isa'' @ rest"] trim_name_append [of "''isa''" rest]
    by (simp add: whitespace_def)
  then show ?thesis
    unfolding transformFunction_def F Let_def maybePrefixed_def
    using a b by auto
qed

lemma not_sublist_ws_append:
  assumes "set ws \<subseteq> set whitespace" and "P \<noteq> []" and "hd P \<notin> set whitespace"
    and "\<not> sublist P S"
  shows "\<not> sublist P (ws @ S)"
  using assms(1)
proof (induction ws)
  case Nil
  then show ?case using assms(4) by simp
next
  case (Cons w ws)
  have "\<not> prefix P (w # ws @ S)"
    using assms(2,3) Cons.prems by (cases P) auto
  then show ?case using Cons by (simp add: sublist_Cons_right)
qed

lemma transformFunction_template:
  assumes "set ws \<subseteq> set whitespace" and "\<not> starts_with H ''template ''"
  shows "transformFunction (''template '' @ ws @ H) IsPointerUnion
           = transformFunction H IsPointerUnion"
proof -
  have "trim (consume_front (''template '' @ ws @ H) ''template '') = trim (ws @ H)"
    using consume_front_append [of "''template ''" "ws @ H"] by simp
  also have "\<dots> = trim H"
    using assms(1) by (simp add: trim_def ltrim_ws_append)
  also have "\<dots> = trim (consume_front H ''template '')"
    using assms(2) by (simp add: consume_front_absent)
  finally show ?thesis unfolding transformFunction_def by simp
qed

text \<open>The definitions unfolded to run the check on a concrete call text.\<close>

lemmas eval_defs = check_dst_def splitCall_def contains_def rsplit_def transformFunction_def
      transformObj_def consume_front_def trim_def ltrim_def rtrim_def whitespace_def
      maybePrefixed_def getSourceText_def

section \<open>Properties of the rewrite\<close>




text \<open>
  Claim C1 at \<open>pu.dyn_cast_or_null<Foo>()\<close>, \<open>pu\<close> of the pointer-union family.
  The claim asks for the resolved name \<open>llvm::dyn_cast_if_present\<close> for both
  \<open>dyn_cast\<close> and \<open>dyn_cast_or_null\<close>. The first branch of
  \<open>transformFunction\<close> takes every operation part that contains \<open>dyn_cast\<close>
  and removes only the prefix \<open>dyn_cast\<close>, so \<open>dyn_cast_or_null\<close> becomes
  \<open>llvm::dyn_cast_if_present_or_null\<close>. The scenario \<open>pu.dyn_cast<Foo>()\<close> is
  rewritten as the claim says, and outside the pointer-union family the second
  branch renames \<open>dyn_cast_or_null\<close> to \<open>llvm::dyn_cast_if_present\<close>.
\<close>

theorem pointer_union_dyn_cast_or_null:
  "check_dst (getSourceText ''pu.dyn_cast_or_null<Foo>()'') False True
     = ''llvm::dyn_cast_if_present_or_null<Foo>(pu)''
   \<and> check_dst (getSourceText ''pu.dyn_cast<Foo>()'') False True
     = ''llvm::dyn_cast_if_present<Foo>(pu)''
   \<and> check_dst (getSourceText ''x.dyn_cast_or_null<Foo>()'') False False
     = ''llvm::dyn_cast_if_present<Foo>(x)''"
  by (simp add: eval_defs)

text \<open>
  Claim C2, as the code has it. The text \<open>x.template isa<Foo, Bar, Baz>()\<close> is
  replaced by \<open>llvm::isa<Foo, Bar, Baz>(x)\<close>, with the \<open>template\<close> keyword
  removed. The text holds no ellipsis, so the split is the plain one at the last
  dot, which is the dot before \<open>template\<close>.
\<close>

theorem template_isa_list_replacement:
  "check_dst (getSourceText ''x.template isa<Foo, Bar, Baz>()'') False IsPointerUnion
     = ''llvm::isa<Foo, Bar, Baz>(x)''
   \<and> \<not> contains (getSourceText ''x.template isa<Foo, Bar, Baz>()'') ''...''
   \<and> splitCall (getSourceText ''x.template isa<Foo, Bar, Baz>()'') False
     = (''x'', ''template isa<Foo, Bar, Baz>('')
   \<and> rsplit (getSourceText ''x.template isa<Foo, Bar, Baz>()'') ''.''
     = (''x'', ''template isa<Foo, Bar, Baz>('')"
  by (simp add: eval_defs)

text \<open>
  The replacement for \<open>x.template isa<Foo, Bar, Baz>()\<close> is not the unqualified
  \<open>isa<Foo, Bar, Baz>(x)\<close>, for either family and whether the text handed to the
  check stops before the closing parenthesis or not.
\<close>

theorem template_isa_list_counterexample:
  "check_dst (getSourceText ''x.template isa<Foo, Bar, Baz>()'') False False
     \<noteq> ''isa<Foo, Bar, Baz>(x)''
   \<and> check_dst (getSourceText ''x.template isa<Foo, Bar, Baz>()'') False True
     \<noteq> ''isa<Foo, Bar, Baz>(x)''
   \<and> check_dst ''x.template isa<Foo, Bar, Baz>()'' False False
     \<noteq> ''isa<Foo, Bar, Baz>(x)''
   \<and> check_dst ''x.template isa<Foo, Bar, Baz>()'' False True
     \<noteq> ''isa<Foo, Bar, Baz>(x)''"
  by (simp add: eval_defs)

text \<open>
  Claim C4, as the code has it. For a call written with an arrow whose text is
  not taken for a variadic \<open>isa\<close> and whose operation part is not blank, the
  split is at the last arrow, the receiver text is \<open>*\<close> followed by the text
  before the last arrow, and the replacement is the resolved operation part
  (which carries the qualifier \<open>llvm::\<close>), that receiver and a closing
  parenthesis.
\<close>

theorem arrow_call_receiver:
  assumes "\<not> contains fn ''->''"
    and "\<not> (contains (recv @ ''->'' @ fn) ''...'' \<and> contains (recv @ ''->'' @ fn) ''isa'')"
    and "trim fn \<noteq> []"
  shows "splitCall (recv @ ''->'' @ fn) True = (recv, fn)
         \<and> transformObj recv fn True = ''*'' @ recv
         \<and> check_dst (recv @ ''->'' @ fn) True IsPointerUnion
             = transformFunction fn IsPointerUnion @ ''*'' @ recv @ '')''"
proof -
  have s: "splitCall (recv @ ''->'' @ fn) True = (recv, fn)"
    using splitCall_plain [OF assms(2), of True] rsplit_arrow [OF assms(1), of recv] by simp
  have t: "transformObj recv fn True = ''*'' @ recv"
    using assms(3) by (simp add: transformObj_def)
  show ?thesis using s t by (simp add: check_dst_def)
qed

text \<open>
  The instance of scenario 5: \<open>x->isa<Foo>()\<close> is replaced by
  \<open>llvm::isa<Foo>(*x)\<close>.
\<close>

theorem arrow_call_receiver_witness:
  "splitCall (getSourceText ''x->isa<Foo>()'') True = (''x'', ''isa<Foo>('')
   \<and> transformObj ''x'' ''isa<Foo>('' True = ''*x''
   \<and> check_dst (getSourceText ''x->isa<Foo>()'') True False = ''llvm::isa<Foo>(*x)''"
  using arrow_call_receiver [of "''isa<Foo>(''" "''x''" False]
  by (simp add: getSourceText_def contains_def trim_def ltrim_def rtrim_def whitespace_def
      transformFunction_def consume_front_def maybePrefixed_def)

text \<open>
  The replacement for \<open>x->isa<Foo>()\<close> is not the unqualified \<open>isa<Foo>(*x)\<close>;
  and for a variadic \<open>isa\<close> the receiver is not \<open>*\<close> followed by the text before
  the last arrow, since the split is at the last \<open>->isa\<close>.
\<close>

theorem arrow_call_counterexample:
  "check_dst (getSourceText ''x->isa<Foo>()'') True False \<noteq> ''isa<Foo>(*x)''
   \<and> check_dst ''x->isa<Foo>()'' True False \<noteq> ''isa<Foo>(*x)''
   \<and> transformObj (fst (splitCall ''x->isa<decltype(p->q)...>('' True))
         (snd (splitCall ''x->isa<decltype(p->q)...>('' True)) True
       \<noteq> ''*'' @ fst (rsplit ''x->isa<decltype(p->q)...>('' ''->'')"
  by (simp add: eval_defs)

text \<open>
  Outside the pointer-union family an operation part that starts with \<open>cast\<close>,
  \<open>dyn_cast\<close> or \<open>isa\<close> and holds no \<open>dyn_cast_or_null\<close> keeps its name,
  qualified with \<open>llvm::\<close>.
\<close>

lemma transformFunction_keeps_name:
  assumes "name \<in> {''cast'', ''dyn_cast'', ''isa''}"
    and "\<not> contains (name @ rest) ''dyn_cast_or_null''"
  shows "transformFunction (name @ rest) False = ''llvm::'' @ name @ rtrim rest"
proof -
  have t: "trim (name @ rest) = name @ rtrim rest"
    using assms(1) by (auto intro!: trim_name_append simp: whitespace_def)
  have n: "\<not> starts_with (name @ rest) ''template ''"
    using assms(1) by auto
  have e: "trim (name @ rest) \<noteq> []"
    using assms(1) t by auto
  have "transformFunction (name @ rest) False = ''llvm::'' @ trim (name @ rest)"
    using n assms(2) e by (intro transformFunction_unrenamed) simp_all
  then show ?thesis using t by simp
qed

text \<open>
  Claim C5, as the code has it. Take a call site outside the pointer-union
  family whose text is a receiver, the dot or arrow of the call, one of the four
  operation names and the rest, with no later dot (arrow) and not taken for a
  variadic \<open>isa\<close>. The split is at that dot (arrow). The operations \<open>cast\<close>,
  \<open>dyn_cast\<close> and \<open>isa\<close> resolve to their own name qualified with \<open>llvm::\<close>
  (when the operation part holds no \<open>dyn_cast_or_null\<close>); \<open>dyn_cast_or_null\<close> is
  renamed to \<open>llvm::dyn_cast_if_present\<close> by the second branch of
  \<open>transformFunction\<close>, which does not look at the family. The replacement is the
  resolved operation part, the receiver (behind \<open>*\<close> for an arrow) and a closing
  parenthesis.
\<close>

theorem not_pointer_union_resolved_name:
  assumes "name \<in> {''cast'', ''dyn_cast'', ''dyn_cast_or_null'', ''isa''}"
    and "\<not> contains (name @ rest) (if IsArrow then ''->'' else ''.'')"
    and "\<not> (contains (recv @ (if IsArrow then ''->'' else ''.'') @ name @ rest) ''...''
            \<and> contains (recv @ (if IsArrow then ''->'' else ''.'') @ name @ rest) ''isa'')"
    and "name \<noteq> ''dyn_cast_or_null'' \<longrightarrow> \<not> contains (name @ rest) ''dyn_cast_or_null''"
  shows "splitCall (recv @ (if IsArrow then ''->'' else ''.'') @ name @ rest) IsArrow
           = (recv, name @ rest)
         \<and> transformFunction (name @ rest) False
             = ''llvm::'' @ (if name = ''dyn_cast_or_null'' then ''dyn_cast_if_present'' else name)
                 @ rtrim rest
         \<and> check_dst (recv @ (if IsArrow then ''->'' else ''.'') @ name @ rest) IsArrow False
             = ''llvm::'' @ (if name = ''dyn_cast_or_null'' then ''dyn_cast_if_present'' else name)
                 @ rtrim rest @ (if IsArrow then ''*'' else []) @ recv @ '')''"
proof -
  let ?tok = "if IsArrow then ''->'' else ''.''"
  let ?Src = "recv @ ?tok @ name @ rest"
  let ?res = "''llvm::'' @ (if name = ''dyn_cast_or_null'' then ''dyn_cast_if_present'' else name)
                 @ rtrim rest"
  have r: "(if IsArrow then rsplit ?Src ''->'' else rsplit ?Src ''.'') = (recv, name @ rest)"
    using assms(2) rsplit_arrow [of "name @ rest" recv] rsplit_dot [of "name @ rest" recv]
    by (cases IsArrow) simp_all
  have s: "splitCall ?Src IsArrow = (recv, name @ rest)"
    using splitCall_plain [OF assms(3), of IsArrow] r by simp
  have f: "transformFunction (name @ rest) False = ?res"
  proof (cases "name = ''dyn_cast_or_null''")
    case True
    then show ?thesis using transformFunction_dyn_cast_or_null [of rest] by simp
  next
    case False
    then have "name \<in> {''cast'', ''dyn_cast'', ''isa''}" using assms(1) by blast
    moreover have "\<not> contains (name @ rest) ''dyn_cast_or_null''" using False assms(4) by blast
    ultimately have "transformFunction (name @ rest) False = ''llvm::'' @ name @ rtrim rest"
      by (rule transformFunction_keeps_name)
    then show ?thesis using False by simp
  qed
  have "trim (name @ rest) = name @ rtrim rest"
    using assms(1) by (auto intro!: trim_name_append simp: whitespace_def)
  then have ne: "trim (name @ rest) \<noteq> []" using assms(1) by auto
  have o: "transformObj recv (name @ rest) IsArrow = (if IsArrow then ''*'' else []) @ recv"
    using ne by (simp add: transformObj_def)
  have d: "check_dst ?Src IsArrow False = ?res @ (if IsArrow then ''*'' else []) @ recv @ '')''"
    unfolding check_dst_def s using f o by simp
  show ?thesis using s f d by simp
qed

text \<open>
  The instances \<open>x.dyn_cast_or_null<Foo>()\<close> and \<open>x->dyn_cast<Foo>()\<close> outside the
  pointer-union family.
\<close>

theorem not_pointer_union_resolved_name_witness:
  "check_dst (getSourceText ''x.dyn_cast_or_null<Foo>()'') False False
     = ''llvm::dyn_cast_if_present<Foo>(x)''
   \<and> check_dst (getSourceText ''x->dyn_cast<Foo>()'') True False
     = ''llvm::dyn_cast<Foo>(*x)''"
  using not_pointer_union_resolved_name [of "''dyn_cast_or_null''" "''<Foo>(''" False "''x''"]
    not_pointer_union_resolved_name [of "''dyn_cast''" "''<Foo>(''" True "''x''"]
  by (simp add: getSourceText_def contains_def rtrim_def whitespace_def)

text \<open>
  Outside the pointer-union family \<open>dyn_cast_or_null\<close> does not resolve to
  itself: the resolved name does not even contain \<open>dyn_cast_or_null\<close>, and the
  replacement for \<open>x.dyn_cast_or_null<Foo>()\<close> is neither
  \<open>dyn_cast_or_null<Foo>(x)\<close> nor \<open>llvm::dyn_cast_or_null<Foo>(x)\<close>.
\<close>

theorem dyn_cast_or_null_renamed_counterexample:
  "transformFunction ''dyn_cast_or_null<Foo>('' False \<noteq> ''dyn_cast_or_null<Foo>(''
   \<and> \<not> contains (transformFunction ''dyn_cast_or_null<Foo>('' False) ''dyn_cast_or_null''
   \<and> check_dst (getSourceText ''x.dyn_cast_or_null<Foo>()'') False False
       \<noteq> ''dyn_cast_or_null<Foo>(x)''
   \<and> check_dst (getSourceText ''x.dyn_cast_or_null<Foo>()'') False False
       \<noteq> ''llvm::dyn_cast_or_null<Foo>(x)''"
  by (simp add: eval_defs)

text \<open>
  Claim C6, as the code has it. When the call text contains an ellipsis and has
  the form receiver, compound token (\<open>.isa\<close> for a dot, \<open>->isa\<close> for an arrow),
  rest, with no later compound token, the split is at the compound token and the
  operation part is \<open>isa\<close> followed by the rest. The resolved name in the
  replacement is that operation part qualified with \<open>llvm::\<close>, so it starts with
  \<open>llvm::isa\<close> (for an operation part that holds no \<open>dyn_cast\<close>).
\<close>

theorem variadic_isa_split:
  assumes "contains (recv @ (if IsArrow then ''->isa'' else ''.isa'') @ rest) ''...''"
    and "\<not> contains rest (if IsArrow then ''->isa'' else ''.isa'')"
    and "\<not> contains rest ''dyn_cast''"
  shows "splitCall (recv @ (if IsArrow then ''->isa'' else ''.isa'') @ rest) IsArrow
           = (recv, ''isa'' @ rest)
         \<and> transformFunction (''isa'' @ rest) IsPointerUnion = ''llvm::isa'' @ rtrim rest
         \<and> check_dst (recv @ (if IsArrow then ''->isa'' else ''.isa'') @ rest) IsArrow
              IsPointerUnion
             = ''llvm::isa'' @ rtrim rest @ (if IsArrow then ''*'' else []) @ recv @ '')''"
proof -
  let ?tok = "if IsArrow then ''->isa'' else ''.isa''"
  let ?Src = "recv @ ?tok @ rest"
  have "sublist ''isa'' ?tok" by (simp add: sublist_Cons_right)
  then have "sublist ''isa'' (?tok @ rest)"
    using sublist_order.order_trans sublist_append_rightI by blast
  then have "sublist ''isa'' ?Src"
    using sublist_order.order_trans sublist_append_leftI by blast
  then have v: "contains ?Src ''...'' \<and> contains ?Src ''isa''"
    using assms(1) by (simp only: contains_sublist simp_thms)
  have r: "(if IsArrow then rsplit ?Src ''->isa'' else rsplit ?Src ''.isa'') = (recv, rest)"
    using assms(2) rsplit_arrow_isa [of rest recv] rsplit_dot_isa [of rest recv]
    by (cases IsArrow) simp_all
  have s: "splitCall ?Src IsArrow = (recv, ''isa'' @ rest)"
    unfolding splitCall_def using v r by simp
  have f: "transformFunction (''isa'' @ rest) IsPointerUnion = ''llvm::isa'' @ rtrim rest"
    using assms(3) by (rule transformFunction_isa)
  have ne: "trim (''isa'' @ rest) \<noteq> []"
    using trim_name_append [of "''isa''" rest] by (simp add: whitespace_def)
  have o: "transformObj recv (''isa'' @ rest) IsArrow = (if IsArrow then ''*'' else []) @ recv"
    using ne by (simp add: transformObj_def)
  have d: "check_dst ?Src IsArrow IsPointerUnion
            = ''llvm::isa'' @ rtrim rest @ (if IsArrow then ''*'' else []) @ recv @ '')''"
    unfolding check_dst_def s using f o by simp
  show ?thesis using s f d by blast
qed

text \<open>
  The instance \<open>x.isa<Ts...>()\<close>: the plain split at the last dot would cut inside
  the ellipsis, the split of the check is at \<open>.isa\<close>.
\<close>

theorem variadic_isa_split_witness:
  "splitCall (getSourceText ''x.isa<Ts...>()'') False = (''x'', ''isa<Ts...>('')
   \<and> rsplit (getSourceText ''x.isa<Ts...>()'') ''.'' = (''x.isa<Ts..'', ''>('')
   \<and> check_dst (getSourceText ''x.isa<Ts...>()'') False False = ''llvm::isa<Ts...>(x)''"
  using variadic_isa_split [of "''x''" False "''<Ts...>(''" False]
  by (simp add: getSourceText_def contains_def rtrim_def whitespace_def rsplit_def)

text \<open>
  For \<open>x.isa<Ts...>()\<close> and \<open>x->isa<Ts...>()\<close> the resolved name and the
  replacement do not start with \<open>isa\<close>: they start with \<open>llvm::\<close>.
\<close>

theorem variadic_isa_name_counterexample:
  "\<not> starts_with
       (transformFunction (snd (splitCall (getSourceText ''x.isa<Ts...>()'') False)) False)
       ''isa''
   \<and> \<not> starts_with (check_dst (getSourceText ''x.isa<Ts...>()'') False False) ''isa''
   \<and> \<not> starts_with (check_dst (getSourceText ''x->isa<Ts...>()'') True False) ''isa''"
  by (simp add: eval_defs)

text \<open>
  Where the keyword is removed: \<open>transformFunction\<close> drops the literal prefix
  \<open>template \<close> (the keyword and one space) from the operation part and trims what
  is left. For a call text that is not taken for a variadic \<open>isa\<close>, whose
  operation part is \<open>template \<close>, any further whitespace and an operation name
  that starts with a non-blank character (and not with \<open>template \<close> again), the
  replacement is the one for the same call text without the keyword.
\<close>

lemma template_keyword_stripping:
  assumes "set ws \<subseteq> set whitespace"
    and "H \<noteq> []" and "hd H \<notin> set whitespace"
    and "\<not> starts_with H ''template ''"
    and "\<not> contains H (if IsArrow then ''->'' else ''.'')"
    and "\<not> (contains (recv @ (if IsArrow then ''->'' else ''.'') @ ''template '' @ ws @ H) ''...''
            \<and> contains (recv @ (if IsArrow then ''->'' else ''.'') @ ''template '' @ ws @ H) ''isa'')"
    and "\<not> (contains (recv @ (if IsArrow then ''->'' else ''.'') @ H) ''...''
            \<and> contains (recv @ (if IsArrow then ''->'' else ''.'') @ H) ''isa'')"
  shows "check_dst (recv @ (if IsArrow then ''->'' else ''.'') @ ''template '' @ ws @ H)
             IsArrow IsPointerUnion
           = check_dst (recv @ (if IsArrow then ''->'' else ''.'') @ H) IsArrow IsPointerUnion"
proof -
  let ?tok = "if IsArrow then ''->'' else ''.''"
  let ?T = "''template '' @ ws @ H"
  have tokP: "?tok \<noteq> []" "hd ?tok \<notin> set whitespace"
    by (simp_all add: whitespace_def)
  have "\<not> sublist ?tok H" using assms(5) by (simp add: contains_sublist)
  then have "\<not> sublist ?tok (ws @ H)"
    using not_sublist_ws_append [OF assms(1) tokP] by blast
  then have nT: "\<not> contains ?T ?tok"
    by (cases IsArrow) (simp_all add: contains_sublist sublist_Cons_right)
  have r1: "(if IsArrow then rsplit (recv @ ?tok @ ?T) ''->'' else rsplit (recv @ ?tok @ ?T) ''.'')
              = (recv, ?T)"
    using nT rsplit_arrow [of ?T recv] rsplit_dot [of ?T recv] by (cases IsArrow) simp_all
  have r2: "(if IsArrow then rsplit (recv @ ?tok @ H) ''->'' else rsplit (recv @ ?tok @ H) ''.'')
              = (recv, H)"
    using assms(5) rsplit_arrow [of H recv] rsplit_dot [of H recv] by (cases IsArrow) simp_all
  have s1: "splitCall (recv @ ?tok @ ?T) IsArrow = (recv, ?T)"
    using splitCall_plain [OF assms(6), of IsArrow] r1 by simp
  have s2: "splitCall (recv @ ?tok @ H) IsArrow = (recv, H)"
    using splitCall_plain [OF assms(7), of IsArrow] r2 by simp
  have f: "transformFunction ?T IsPointerUnion = transformFunction H IsPointerUnion"
    using assms(1,4) by (rule transformFunction_template)
  have "hd H \<in> set H" using assms(2) by simp
  then have e2: "trim H \<noteq> []" using assms(3) by (auto simp: trim_Nil_iff)
  have "CHR ''t'' \<in> set ?T" by simp
  moreover have "CHR ''t'' \<notin> set whitespace" by (simp add: whitespace_def)
  ultimately have e1: "trim ?T \<noteq> []" unfolding trim_Nil_iff by blast
  have o: "transformObj recv ?T IsArrow = transformObj recv H IsArrow"
    using e1 e2 unfolding transformObj_def by simp
  show ?thesis unfolding check_dst_def s1 s2 using f o by simp
qed

text \<open>
  Claim C7 at \<open>x.template\<close>, a tab, \<open>cast<Foo>()\<close> and at
  \<open>x.template isa<Ts...>()\<close>. The claim asks for the output of the same call
  without the keyword, whatever whitespace follows the keyword, and the comment in
  \<open>check\<close> says that uses of the \<open>template\<close> keyword are removed. With a tab after
  the keyword \<open>consume_front("template ")\<close> does not fire and the keyword stays in
  the replacement, whereas with a space it is removed. In the variadic form the
  keyword stands between the dot and \<open>isa\<close>, so the compound token \<open>.isa\<close> is not
  found: the whole call text, keyword included, becomes the receiver.
\<close>

theorem template_keyword_kept:
  "check_dst (getSourceText (''x.template'' @ [CHR 0x09] @ ''cast<Foo>()'')) False False
     = ''llvm::template'' @ [CHR 0x09] @ ''cast<Foo>(x)''
   \<and> check_dst (getSourceText ''x.cast<Foo>()'') False False = ''llvm::cast<Foo>(x)''
   \<and> check_dst (getSourceText ''x.template cast<Foo>()'') False False = ''llvm::cast<Foo>(x)''
   \<and> check_dst (getSourceText ''x.template isa<Ts...>()'') False False
     = ''llvm::isax.template isa<Ts...>()''
   \<and> check_dst (getSourceText ''x.isa<Ts...>()'') False False = ''llvm::isa<Ts...>(x)''"
  by (simp add: eval_defs)

text \<open>
  Claim C8. When the operation part that \<open>splitCall\<close> returns is empty after
  trimming, the resolved name is exactly \<open>llvm::\<close>, and for an arrow call the
  receiver text is the split receiver followed by \<open>*this\<close> (no \<open>*\<close> in front).
\<close>

theorem empty_operation_part:
  assumes "splitCall Src IsArrow = (Obj, Function)" and "trim Function = []"
  shows "transformFunction Function IsPointerUnion = ''llvm::''
         \<and> (IsArrow \<longrightarrow> transformObj Obj Function IsArrow = Obj @ ''*this'')
         \<and> check_dst Src IsArrow IsPointerUnion
             = ''llvm::'' @ (if IsArrow then Obj @ ''*this'' else Obj) @ '')''"
proof -
  have ws: "set Function \<subseteq> set whitespace" using assms(2) by (simp add: trim_Nil_iff)
  have "\<not> prefix ''template '' Function"
  proof
    assume "prefix ''template '' Function"
    then obtain r where "Function = ''template '' @ r" by (auto simp: prefix_def)
    then have "CHR ''t'' \<in> set Function" by simp
    then show False using ws by (auto simp: whitespace_def)
  qed
  then have "consume_front Function ''template '' = Function"
    by (simp add: consume_front_absent starts_with_prefix)
  then have F: "trim (consume_front Function ''template '') = []"
    using assms(2) by simp
  have t0: "trim [] = []" by (simp add: trim_def ltrim_def rtrim_def)
  have f: "transformFunction Function IsPointerUnion = ''llvm::''"
    unfolding transformFunction_def F Let_def by (simp add: contains_def t0)
  have o: "transformObj Obj Function IsArrow = (if IsArrow then Obj @ ''*this'' else Obj)"
    using assms(2) by (simp add: transformObj_def)
  show ?thesis unfolding check_dst_def assms(1) using f o by (cases IsArrow) simp_all
qed

text \<open>
  The instance of a member call through the implicit \<open>this\<close>: the text
  \<open>cast<Foo>()\<close> holds no arrow, the split leaves the operation part empty, and
  the replacement is \<open>llvm::cast<Foo>(*this)\<close>.
\<close>

theorem empty_operation_part_witness:
  "splitCall (getSourceText ''cast<Foo>()'') True = (''cast<Foo>('', [])
   \<and> transformFunction [] False = ''llvm::''
   \<and> transformObj ''cast<Foo>('' [] True = ''cast<Foo>(*this''
   \<and> check_dst (getSourceText ''cast<Foo>()'') True False = ''llvm::cast<Foo>(*this)''"
proof -
  have s: "splitCall ''cast<Foo>('' True = (''cast<Foo>('', [])"
    by (simp add: splitCall_def contains_def rsplit_def)
  have t: "trim [] = []" by (simp add: trim_def ltrim_def rtrim_def)
  show ?thesis using empty_operation_part [OF s t, of False] s
    by (simp add: getSourceText_def)
qed

text \<open>
  Claim C9. For every match that binds the member expression (as \<open>Callee\<close> or as
  \<open>PUCallee\<close>), whatever the call text and the flags, \<open>check\<close> returns normally
  and emits exactly one diagnostic with a non-empty replacement text.
\<close>

theorem check_total:
  assumes "Callee Result \<noteq> None \<or> PUCallee Result \<noteq> None"
  shows "\<exists>st' d. check Result st = Inr st' \<and> diagnostics st' = diagnostics st @ [d]
           \<and> Replacement d \<noteq> []"
proof -
  have "Callee_of Result \<noteq> None"
    using assms by (auto simp: Callee_of_def split: option.splits)
  then obtain C where "Callee_of Result = Some C" by blast
  then show ?thesis
    by (simp add: check_def printFixIt_def check_dst_def split: prod.splits)
qed

text \<open>
  The instance of a misfiring split: an arrow call of the pointer-union family
  whose text \<open>f(x\<close> holds no arrow.
\<close>

theorem check_total_witness:
  "\<exists>st' d. check \<lparr>SourceText = ''f(x'', Callee = None,
               PUCallee = Some \<lparr>isArrow = True, getMemberName = ''dyn_cast''\<rparr>\<rparr>
             \<lparr>errs = [], diagnostics = []\<rparr> = Inr st'
           \<and> diagnostics st' = [d] \<and> Replacement d \<noteq> []"
  using check_total [of "\<lparr>SourceText = ''f(x'', Callee = None,
               PUCallee = Some \<lparr>isArrow = True, getMemberName = ''dyn_cast''\<rparr>\<rparr>"
             "\<lparr>errs = [], diagnostics = []\<rparr>"]
  by simp

text \<open>
  Claim C10. The replacement that \<open>check\<close> emits depends only on the source text
  of the call, the arrow flag and the pointer-union flag: two runs that agree on
  these three emit the same diagnostic, whatever the states they start from (what
  earlier call sites left in \<open>llvm::errs()\<close> and in the diagnostics) and whatever
  else the two matches hold.
\<close>

theorem check_stateless:
  assumes "SourceText R1 = SourceText R2"
    and "map_option isArrow (Callee_of R1) = map_option isArrow (Callee_of R2)"
    and "IsPointerUnion_of R1 = IsPointerUnion_of R2"
    and "check R1 st1 = Inr st1'" and "check R2 st2 = Inr st2'"
  shows "\<exists>d. diagnostics st1' = diagnostics st1 @ [d]
            \<and> diagnostics st2' = diagnostics st2 @ [d]
            \<and> Replacement d
                = check_dst (SourceText R1) (isArrow (the (Callee_of R1))) (IsPointerUnion_of R1)"
proof -
  from assms(4) obtain C1 where c1: "Callee_of R1 = Some C1"
    by (auto simp: check_def split: option.splits)
  from assms(5) obtain C2 where c2: "Callee_of R2 = Some C2"
    by (auto simp: check_def split: option.splits)
  have a: "isArrow C1 = isArrow C2" using assms(2) c1 c2 by simp
  have "diagnostics st1' = diagnostics st1 @
          [\<lparr>Message = ''Casting call is using methods instead of functions https://mlir.llvm.org/deprecation/'',
            Replacement = check_dst (SourceText R1) (isArrow C1) (IsPointerUnion_of R1)\<rparr>]"
    using assms(4) c1 by (auto simp: check_def printFixIt_def)
  moreover have "diagnostics st2' = diagnostics st2 @
          [\<lparr>Message = ''Casting call is using methods instead of functions https://mlir.llvm.org/deprecation/'',
            Replacement = check_dst (SourceText R1) (isArrow C1) (IsPointerUnion_of R1)\<rparr>]"
    using assms(5) c2 a assms(1,3) by (auto simp: check_def printFixIt_def)
  ultimately show ?thesis using c1 by simp
qed

text \<open>
  The instance of two matches of \<open>x.cast<Foo>()\<close> that differ in the member name
  and in the unused \<open>PUCallee\<close> binding, run from an empty state and from a state
  that already holds output of an earlier call site.
\<close>

theorem check_stateless_witness:
  "\<exists>st1' st2' d.
      check \<lparr>SourceText = ''x.cast<Foo>('',
              Callee = Some \<lparr>isArrow = False, getMemberName = ''cast''\<rparr>,
              PUCallee = None\<rparr>
            \<lparr>errs = [], diagnostics = []\<rparr> = Inr st1'
    \<and> check \<lparr>SourceText = ''x.cast<Foo>('',
              Callee = Some \<lparr>isArrow = False, getMemberName = ''Cast''\<rparr>,
              PUCallee = Some \<lparr>isArrow = True, getMemberName = ''dyn_cast''\<rparr>\<rparr>
            \<lparr>errs = ''Transform func(isa<A>()'',
             diagnostics = [\<lparr>Message = ''earlier'', Replacement = ''llvm::isa<A>(y)''\<rparr>]\<rparr>
        = Inr st2'
    \<and> diagnostics st1' = [d]
    \<and> diagnostics st2' = [\<lparr>Message = ''earlier'', Replacement = ''llvm::isa<A>(y)''\<rparr>, d]"
proof -
  let ?R1 = "\<lparr>SourceText = ''x.cast<Foo>('',
              Callee = Some \<lparr>isArrow = False, getMemberName = ''cast''\<rparr>,
              PUCallee = None\<rparr>"
  let ?R2 = "\<lparr>SourceText = ''x.cast<Foo>('',
              Callee = Some \<lparr>isArrow = False, getMemberName = ''Cast''\<rparr>,
              PUCallee = Some \<lparr>isArrow = True, getMemberName = ''dyn_cast''\<rparr>\<rparr>"
  let ?s1 = "\<lparr>errs = [], diagnostics = []\<rparr>"
  let ?s2 = "\<lparr>errs = ''Transform func(isa<A>()'',
             diagnostics = [\<lparr>Message = ''earlier'', Replacement = ''llvm::isa<A>(y)''\<rparr>]\<rparr>"
  obtain st1' where e1: "check ?R1 ?s1 = Inr st1'"
    by (simp add: check_def Callee_of_def)
  obtain st2' where e2: "check ?R2 ?s2 = Inr st2'"
    by (simp add: check_def Callee_of_def)
  have "\<exists>d. diagnostics st1' = diagnostics ?s1 @ [d]
            \<and> diagnostics st2' = diagnostics ?s2 @ [d]
            \<and> Replacement d
                = check_dst (SourceText ?R1) (isArrow (the (Callee_of ?R1))) (IsPointerUnion_of ?R1)"
    by (rule check_stateless [OF _ _ _ e1 e2])
       (simp_all add: Callee_of_def IsPointerUnion_of_def)
  then show ?thesis using e1 e2 by auto
qed

end
